theory Spec2Isabelle
  imports Main "HOL-Library.Sublist"
begin

section \<open>Python string operations used by the application\<close>

text \<open>
  A Python \<open>str\<close> is modelled as a \<open>string\<close>: a list of characters, each character a
  code point below U+0100. On these code points \<open>str.isspace\<close>, \<open>str.lower\<close> and
  \<open>str.strip\<close> are the tables written out below.
\<close>

definition isspace :: "char \<Rightarrow> bool" where
  "isspace c =
     (let n = (of_char c :: nat)
      in (9 \<le> n \<and> n \<le> 13) \<or> (28 \<le> n \<and> n \<le> 32) \<or> n = 133 \<or> n = 160)"

definition str_strip :: "string \<Rightarrow> string" where
  "str_strip s = rev (dropWhile isspace (rev (dropWhile isspace s)))"

definition lower_char :: "char \<Rightarrow> char" where
  "lower_char c =
     (let n = (of_char c :: nat)
      in if (65 \<le> n \<and> n \<le> 90) \<or> (192 \<le> n \<and> n \<le> 222 \<and> n \<noteq> 215)
         then char_of (n + 32) else c)"

definition str_lower :: "string \<Rightarrow> string" where
  "str_lower s = map lower_char s"

definition str_startswith :: "string \<Rightarrow> string \<Rightarrow> bool" where
  "str_startswith s p = prefix p s"

text \<open>\<open>s.find(sub)\<close>: the index of the leftmost occurrence, \<open>None\<close> for Python's -1.\<close>

fun str_find :: "string \<Rightarrow> string \<Rightarrow> nat option" where
  "str_find sub [] = (if sub = [] then Some 0 else None)"
| "str_find sub (c # cs) =
     (if prefix sub (c # cs) then Some 0 else map_option Suc (str_find sub cs))"

text \<open>\<open>sub in s\<close>.\<close>

definition str_contains :: "string \<Rightarrow> string \<Rightarrow> bool" where
  "str_contains sub s = (str_find sub s \<noteq> None)"

text \<open>
  \<open>s.split(sep, 1)\<close> for a non-empty separator (the application only passes the literal
  marker; Python raises ValueError on an empty one).
\<close>

definition str_split1 :: "string \<Rightarrow> string \<Rightarrow> string list" where
  "str_split1 sep s =
     (case str_find sep s of
        None \<Rightarrow> [s]
      | Some i \<Rightarrow> [take i s, drop (i + length sep) s])"

text \<open>\<open>s.replace(old, new)\<close> and \<open>s.split(sep)\<close> for one-character arguments.\<close>

definition str_replace :: "char \<Rightarrow> char \<Rightarrow> string \<Rightarrow> string" where
  "str_replace old new s = map (\<lambda>c. if c = old then new else c) s"

fun str_split :: "char \<Rightarrow> string \<Rightarrow> string list" where
  "str_split sep [] = [[]]"
| "str_split sep (c # cs) =
     (if c = sep then [] # str_split sep cs
      else (case str_split sep cs of
              [] \<Rightarrow> [[c]]
            | p # ps \<Rightarrow> (c # p) # ps))"

text \<open>\<open>sep.join(xs)\<close>.\<close>

fun str_join :: "string \<Rightarrow> string list \<Rightarrow> string" where
  "str_join sep [] = []"
| "str_join sep [x] = x"
| "str_join sep (x # y # ys) = x @ sep @ str_join sep (y # ys)"

section \<open>Display transforms of the Summary and Key Insights pages\<close>

definition marker :: string where
  "marker = ''Key Actions:''"

text \<open>Lines 130 to 134: the text shown on the Summary page.\<close>

definition summary_view :: "string \<Rightarrow> string" where
  "summary_view stored =
     (let summary_text =
            (if str_contains marker stored then hd (str_split1 marker stored)
             else stored)
      in if str_startswith (str_strip (str_lower summary_text)) ''summary:''
         then str_strip (drop (length ''summary:'') summary_text)
         else summary_text)"

text \<open>Lines 150 to 152: the key-actions text taken from the summary.\<close>

definition extract_key_actions :: "string \<Rightarrow> string" where
  "extract_key_actions stored =
     (if str_contains marker stored then str_strip (last (str_split1 marker stored))
      else [])"

text \<open>Line 157: the list comprehension.\<close>

definition points_of :: "string \<Rightarrow> string list" where
  "points_of ka =
     map str_strip
       (filter (\<lambda>pt. str_strip pt \<noteq> [])
          (str_split (CHR ''.'') (str_replace (CHR '';'') (CHR ''.'') ka)))"

text \<open>Lines 154 to 159.\<close>

definition display_key_actions :: "string \<Rightarrow> string" where
  "display_key_actions ka =
     (if ka \<noteq> [] \<and>
         \<not> (str_contains ''- '' ka \<or> str_contains [CHR 0x0A] ka)
      then (let points = points_of ka
            in if length points > 1
               then str_join [CHR 0x0A] (map (\<lambda>pt. ''- '' @ pt) points)
               else ka)
      else ka)"

text \<open>Lines 160 and 163: \<open>display_key_actions or "No key actions found."\<close>.\<close>

definition or_placeholder :: "string \<Rightarrow> string" where
  "or_placeholder d = (if d \<noteq> [] then d else ''No key actions found.'')"

definition key_insights_view :: "string \<Rightarrow> string" where
  "key_insights_view stored = or_placeholder (display_key_actions (extract_key_actions stored))"

text \<open>
  The bullet formatting in the words of the specification: semicolons become periods,
  the text is split on periods, every fragment is stripped, empty fragments are discarded,
  and the survivors are prefixed with a dash and a space and joined by newlines.
\<close>

definition spec_fragments :: "string \<Rightarrow> string list" where
  "spec_fragments t =
     filter (\<lambda>f. f \<noteq> [])
       (map str_strip (str_split (CHR ''.'') (str_replace (CHR '';'') (CHR ''.'') t)))"

definition spec_bullets :: "string \<Rightarrow> string" where
  "spec_bullets t = str_join [CHR 0x0A] (map (\<lambda>f. ''- '' @ f) (spec_fragments t))"

text \<open>
  The Summary view in the words of the specification: the text before the marker, and, when
  that text begins with the label once surrounding whitespace is ignored and case is
  folded, the text after the label, stripped.
\<close>

definition spec_summary_view :: "string \<Rightarrow> string" where
  "spec_summary_view stored =
     (let before = (case str_find marker stored of None \<Rightarrow> stored | Some i \<Rightarrow> take i stored);
          trimmed = str_strip before
      in if str_startswith (str_lower trimmed) ''summary:''
         then str_strip (drop (length ''summary:'') trimmed)
         else before)"

section \<open>Decoded JSON values and Python's operations on them\<close>

text \<open>
  The result of \<open>response.json()\<close>. Session fields hold such values, since the code
  stores whatever the decoded body contains. A JSON object is the list of its items, each
  key once. Non-integer numbers are not represented.
\<close>

datatype json =
    JNull
  | JBool bool
  | JNum int
  | JStr string
  | JArr "json list"
  | JObj "(string \<times> json) list"

datatype py_error = KeyError | IndexError | TypeError | AttributeError | JSONDecodeError

text \<open>Truth value of a Python object, as tested by \<open>if x:\<close>.\<close>

fun truthy :: "json \<Rightarrow> bool" where
  "truthy JNull = False"
| "truthy (JBool b) = b"
| "truthy (JNum n) = (n \<noteq> 0)"
| "truthy (JStr s) = (s \<noteq> [])"
| "truthy (JArr xs) = (xs \<noteq> [])"
| "truthy (JObj kvs) = (kvs \<noteq> [])"

text \<open>\<open>x[k]\<close> for a string key \<open>k\<close>, and \<open>x[0]\<close>.\<close>

fun getitem :: "json \<Rightarrow> string \<Rightarrow> py_error + json" where
  "getitem (JObj kvs) k = (case map_of kvs k of None \<Rightarrow> Inl KeyError | Some v \<Rightarrow> Inr v)"
| "getitem _ k = Inl TypeError"

fun getitem0 :: "json \<Rightarrow> py_error + json" where
  "getitem0 (JArr []) = Inl IndexError"
| "getitem0 (JArr (x # xs)) = Inr x"
| "getitem0 (JStr []) = Inl IndexError"
| "getitem0 (JStr (c # cs)) = Inr (JStr [c])"
| "getitem0 (JObj kvs) = Inl KeyError"
| "getitem0 _ = Inl TypeError"

definition and_then :: "py_error + 'a \<Rightarrow> ('a \<Rightarrow> py_error + 'b) \<Rightarrow> py_error + 'b" where
  "and_then x f = (case x of Inl e \<Rightarrow> Inl e | Inr v \<Rightarrow> f v)"

section \<open>Responses, session state and what a script run shows\<close>

text \<open>
  A response of the \<open>requests\<close> library: its status code, its raw body \<open>res.text\<close> and
  the value of \<open>res.json()\<close> (\<open>None\<close> when the body is not JSON and the call raises).
\<close>

record http_response =
  status_code :: int
  res_text :: string
  res_json :: "json option"

definition json_field :: "http_response \<Rightarrow> string \<Rightarrow> py_error + json" where
  "json_field res k =
     (case res_json res of None \<Rightarrow> Inl JSONDecodeError | Some j \<Rightarrow> getitem j k)"

text \<open>Lines 34 and 35: the three session fields, each initially the empty string.\<close>

record session =
  transcript :: json
  summary :: json
  key_actions :: json

definition initial_session :: session where
  "initial_session = \<lparr>transcript = JStr [], summary = JStr [], key_actions = JStr []\<rparr>"

text \<open>
  The elements a run puts on the page that carry data or report an outcome, named by their
  role: the error of line 51, of line 63, the success of line 77, the error of line 79, the
  info of line 81, the success of line 123, the errors of lines 125 and 127, the warnings of
  lines 97 and 168, a text area (label, value) and a download button (data, file name).
  Static headings and the spinner are left out.
\<close>

datatype element =
    UploadFailed
  | RequestFailed
  | TranscriptionCompleted
  | TranscriptionFailed
  | StatusWaiting json
  | SummaryGenerated
  | ParsingFailed py_error
  | GeminiError string
  | NeedTranscript
  | NeedSummary
  | TextArea string string
  | DownloadButton string string

text \<open>
  The outcome of one run of the script: the session state it leaves, the elements it has
  shown, and the exception that ended it, if one escaped.
\<close>

record run =
  session_state :: session
  shown :: "element list"
  raised :: "py_error option"

definition begin_run :: "session \<Rightarrow> run" where
  "begin_run s = \<lparr>session_state = s, shown = [], raised = None\<rparr>"

definition raise :: "py_error \<Rightarrow> run \<Rightarrow> run" where
  "raise e r = r\<lparr>raised := Some e\<rparr>"

definition emit :: "element \<Rightarrow> run \<Rightarrow> run" where
  "emit x r = r\<lparr>shown := shown r @ [x]\<rparr>"

section \<open>Transcription stage\<close>

text \<open>
  Lines 66 to 81. The loop is entered with status \<open>queued\<close>, so its body runs at least
  once; \<open>get n\<close> is the response to the n-th poll. The loop has no bound, so the model is
  a partial function: \<open>None\<close> is a loop that never exits.
\<close>

partial_function (option) poll :: "(nat \<Rightarrow> http_response) \<Rightarrow> nat \<Rightarrow> run \<Rightarrow> run option" where
  "poll get n r =
     (case json_field (get n) ''status'' of
        Inl e \<Rightarrow> Some (raise e r)
      | Inr status \<Rightarrow>
          if status = JStr ''completed'' then
            (case json_field (get n) ''text'' of
               Inl e \<Rightarrow> Some (raise e r)
             | Inr t \<Rightarrow>
                 Some (emit TranscriptionCompleted
                         (r\<lparr>session_state := (session_state r)\<lparr>transcript := t\<rparr>\<rparr>)))
          else if status = JStr ''error'' then Some (emit TranscriptionFailed r)
          else poll get (Suc n) (emit (StatusWaiting status) r))"

declare poll.simps [code]

text \<open>
  Lines 45 to 81, run when a file is chosen and the button is pressed. The service is
  given by the response to the upload, the response to the job request for an upload URL,
  and the responses to the polls of a job id.
\<close>

definition start_transcription ::
  "http_response \<Rightarrow> (json \<Rightarrow> http_response) \<Rightarrow> (json \<Rightarrow> nat \<Rightarrow> http_response) \<Rightarrow>
   session \<Rightarrow> run option" where
  "start_transcription upload_res post_transcript get_transcript s =
     (let r = begin_run s
      in if status_code upload_res \<noteq> 200 then Some (emit UploadFailed r)
         else (case json_field upload_res ''upload_url'' of
                 Inl e \<Rightarrow> Some (raise e r)
               | Inr upload_url \<Rightarrow>
                   (let transcript_res = post_transcript upload_url
                    in if status_code transcript_res \<noteq> 200 then Some (emit RequestFailed r)
                       else (case json_field transcript_res ''id'' of
                               Inl e \<Rightarrow> Some (raise e r)
                             | Inr transcript_id \<Rightarrow> poll (get_transcript transcript_id) 0 r))))"

section \<open>Summarization stage\<close>

text \<open>Line 121: \<open>res.json()["candidates"][0]["content"]["parts"][0]["text"]\<close>.\<close>

definition gemini_text :: "http_response \<Rightarrow> py_error + json" where
  "gemini_text res =
     and_then (json_field res ''candidates'') (\<lambda>candidates.
     and_then (getitem0 candidates) (\<lambda>candidate.
     and_then (getitem candidate ''content'') (\<lambda>content.
     and_then (getitem content ''parts'') (\<lambda>parts.
     and_then (getitem0 parts) (\<lambda>part.
     getitem part ''text'')))))"

text \<open>Lines 117 to 127; every exception of line 121 is caught by line 124.\<close>

definition generate_summary :: "http_response \<Rightarrow> run \<Rightarrow> run" where
  "generate_summary res r =
     (if status_code res = 200 then
        (case gemini_text res of
           Inr text \<Rightarrow>
             emit SummaryGenerated (r\<lparr>session_state := (session_state r)\<lparr>summary := text\<rparr>\<rparr>)
         | Inl e \<Rightarrow> emit (ParsingFailed e) r)
      else emit (GeminiError (res_text res)) r)"

text \<open>
  Lines 129 to 143. A stored value that is not a string fails at line 131 (a number) or at
  the first string method (a list or an object).
\<close>

definition show_summary :: "run \<Rightarrow> run" where
  "show_summary r =
     (let v = summary (session_state r)
      in if truthy v then
           (case v of
              JStr t \<Rightarrow>
                emit (DownloadButton (summary_view t) ''summary.txt'')
                  (emit (TextArea [] (summary_view t)) r)
            | JArr xs \<Rightarrow> raise AttributeError r
            | JObj kvs \<Rightarrow> raise AttributeError r
            | _ \<Rightarrow> raise TypeError r)
         else r)"

text \<open>Lines 94 to 143; \<open>clicked\<close> is the value of the button of line 99.\<close>

definition summary_page :: "bool \<Rightarrow> http_response \<Rightarrow> session \<Rightarrow> run" where
  "summary_page clicked res s =
     (if \<not> truthy (transcript s) then emit NeedTranscript (begin_run s)
      else show_summary (if clicked then generate_summary res (begin_run s) else begin_run s))"

section \<open>Key Insights page\<close>

text \<open>
  Lines 149 to 152 on the stored value: a list or an object answers the membership test
  and then has no \<open>split\<close>; a number does not support the test.
\<close>

fun stored_key_actions :: "json \<Rightarrow> py_error + string" where
  "stored_key_actions (JStr t) = Inr (extract_key_actions t)"
| "stored_key_actions (JArr xs) =
     (if JStr marker \<in> set xs then Inl AttributeError else Inr [])"
| "stored_key_actions (JObj kvs) =
     (if marker \<in> set (map fst kvs) then Inl AttributeError else Inr [])"
| "stored_key_actions _ = Inl TypeError"

text \<open>Lines 146 to 168.\<close>

definition key_insights_page :: "session \<Rightarrow> run" where
  "key_insights_page s =
     (if truthy (summary s) then
        (case stored_key_actions (summary s) of
           Inl e \<Rightarrow> raise e (begin_run s)
         | Inr ka \<Rightarrow>
             (let shown_text = or_placeholder (display_key_actions ka)
              in emit (DownloadButton shown_text ''key_insights.txt'')
                   (emit (TextArea ''Key Actions'' shown_text) (begin_run s))))
      else emit NeedSummary (begin_run s))"

text \<open>What the text areas of a page show and what its download buttons serve.\<close>

fun text_area_values :: "element list \<Rightarrow> string list" where
  "text_area_values [] = []"
| "text_area_values (TextArea l v # es) = v # text_area_values es"
| "text_area_values (e # es) = text_area_values es"

fun download_data :: "element list \<Rightarrow> string list" where
  "download_data [] = []"
| "download_data (DownloadButton d f # es) = d # download_data es"
| "download_data (e # es) = download_data es"

section \<open>Vocabulary for the statements about polling\<close>

text \<open>
  A response is non-terminal with status \<open>st\<close> when it carries that status and the status
  is neither \<open>completed\<close> nor \<open>error\<close>; it is terminal when its status is one of the
  two; it is well formed when it has a status and, if completed, a text. \<open>waiting st k n\<close>
  are the status messages of the polls \<open>k\<close> up to \<open>n - 1\<close>.
\<close>

definition non_terminal :: "http_response \<Rightarrow> json \<Rightarrow> bool" where
  "non_terminal res st =
     (json_field res ''status'' = Inr st \<and> st \<noteq> JStr ''completed'' \<and> st \<noteq> JStr ''error'')"

definition terminal :: "http_response \<Rightarrow> bool" where
  "terminal res =
     (json_field res ''status'' = Inr (JStr ''completed'') \<or>
      json_field res ''status'' = Inr (JStr ''error''))"

definition well_formed :: "http_response \<Rightarrow> bool" where
  "well_formed res =
     (case json_field res ''status'' of
        Inl e \<Rightarrow> False
      | Inr st \<Rightarrow>
          if st = JStr ''completed''
          then (case json_field res ''text'' of Inl e \<Rightarrow> False | Inr t \<Rightarrow> True)
          else True)"

definition waiting :: "(nat \<Rightarrow> json) \<Rightarrow> nat \<Rightarrow> nat \<Rightarrow> element list" where
  "waiting st k n = map (\<lambda>i. StatusWaiting (st i)) [k..<n]"

section \<open>Example inputs\<close>

text \<open>
  Responses and sessions at which the theorems below are instantiated: a successful
  response with a JSON object as body, a failed response, a job that is queued, then
  processing, and then ends with a given status, and two sessions with stored texts.
\<close>

definition ok_json :: "(string \<times> json) list \<Rightarrow> http_response" where
  "ok_json kvs = \<lparr>status_code = 200, res_text = [], res_json = Some (JObj kvs)\<rparr>"

definition demo_polls :: "json \<Rightarrow> nat \<Rightarrow> http_response" where
  "demo_polls last_status n =
     (if n = 0 then ok_json [(''status'', JStr ''queued'')]
      else if n = 1 then ok_json [(''status'', JStr ''processing'')]
      else ok_json [(''status'', last_status), (''text'', JStr ''hello'')])"

definition demo_statuses :: "nat \<Rightarrow> json" where
  "demo_statuses i = (if i = 0 then JStr ''queued'' else JStr ''processing'')"

definition failing_response :: "int \<Rightarrow> http_response" where
  "failing_response code = \<lparr>status_code = code, res_text = ''denied'', res_json = None\<rparr>"

definition old_session :: session where
  "old_session = \<lparr>transcript = JStr ''old transcript'', summary = JStr ''old summary'',
                   key_actions = JStr []\<rparr>"

definition demo_session :: session where
  "demo_session = \<lparr>transcript = JStr ''hello'',
                    summary = JStr ''Summary: Patient has a cold.Key Actions:Rest; drink fluids.'',
                    key_actions = JStr []\<rparr>"

text \<open>
  An error body of the transcription service, which has no status field, and a job whose
  third poll is answered with it.
\<close>

definition no_status_polls :: "nat \<Rightarrow> http_response" where
  "no_status_polls n =
     \<lparr>status_code = 500, res_text = ''Internal server error'',
      res_json = Some (JObj [(''error'', JStr ''Internal server error'')])\<rparr>"

definition broken_polls :: "nat \<Rightarrow> http_response" where
  "broken_polls n = (if n < 2 then demo_polls (JStr ''completed'') n else no_status_polls n)"

section \<open>Facts about the string operations\<close>

lemma str_find_Some:
  "str_find sub s = Some i \<Longrightarrow>
     s = take i s @ sub @ drop (i + length sub) s \<and> (\<forall>j<i. \<not> prefix sub (drop j s))"
proof (induction s arbitrary: i)
  case Nil
  then show ?case by (simp split: if_splits)
next
  case (Cons c cs)
  show ?case
  proof (cases "prefix sub (c # cs)")
    case True
    with Cons.prems have "i = 0" by simp
    moreover from True obtain r where "c # cs = sub @ r" by (auto simp: prefix_def)
    ultimately show ?thesis by simp
  next
    case False
    with Cons.prems obtain k where k: "str_find sub cs = Some k" "i = Suc k" by auto
    from Cons.IH [OF k(1)] have
      eq: "cs = take k cs @ sub @ drop (k + length sub) cs"
      and least: "\<forall>j<k. \<not> prefix sub (drop j cs)" by simp_all
    have "\<forall>j<i. \<not> prefix sub (drop j (c # cs))"
    proof (intro allI impI)
      fix j assume "j < i"
      show "\<not> prefix sub (drop j (c # cs))"
      proof (cases j)
        case 0
        with False show ?thesis by simp
      next
        case (Suc m)
        with \<open>j < i\<close> k(2) least show ?thesis by simp
      qed
    qed
    moreover from eq k(2) have "c # cs = take i (c # cs) @ sub @ drop (i + length sub) (c # cs)"
      by simp
    ultimately show ?thesis by blast
  qed
qed

lemma str_find_bound: "str_find sub s = Some i \<Longrightarrow> i + length sub \<le> length s"
proof (induction s arbitrary: i)
  case Nil
  then show ?case by (simp split: if_splits)
next
  case (Cons c cs)
  then show ?case by (auto split: if_splits dest: prefix_length_le)
qed

lemma str_find_None:
  "str_find sub s = None \<Longrightarrow> \<not> prefix sub (drop j s)"
proof (induction s arbitrary: j)
  case Nil
  then show ?case by (simp split: if_splits)
next
  case (Cons c cs)
  then show ?case by (cases j) (auto split: if_splits)
qed

text \<open>An occurrence with none starting before it is the one \<open>str_find\<close> returns.\<close>

lemma str_find_first:
  assumes "s = pre @ sub @ post" and "\<forall>j<length pre. \<not> prefix sub (drop j s)"
  shows "str_find sub s = Some (length pre)"
proof -
  have here: "prefix sub (drop (length pre) s)" using assms(1) by simp
  show ?thesis
  proof (cases "str_find sub s")
    case None
    from str_find_None [OF None, of "length pre"] here show ?thesis by simp
  next
    case (Some i)
    from str_find_Some [OF Some] have
      eq: "s = take i s @ sub @ drop (i + length sub) s"
      and least: "\<forall>j<i. \<not> prefix sub (drop j s)" by simp_all
    from str_find_bound [OF Some] have "i \<le> length s" by simp
    then have "length (take i s) = i" by simp
    with eq have "drop i s = sub @ drop (i + length sub) s"
      by (metis append_eq_conv_conj)
    then have there: "prefix sub (drop i s)" by (metis prefixI)
    have "\<not> i < length pre" using there assms(2) by blast
    moreover have "\<not> length pre < i" using here least by blast
    ultimately have "i = length pre" by simp
    with Some show ?thesis by simp
  qed
qed

text \<open>\<open>sub in s\<close> holds exactly when \<open>sub\<close> occurs in \<open>s\<close>.\<close>

lemma str_contains_iff: "str_contains sub s \<longleftrightarrow> (\<exists>pre post. s = pre @ sub @ post)"
proof
  assume "str_contains sub s"
  then obtain i where "str_find sub s = Some i" by (auto simp: str_contains_def)
  from str_find_Some [OF this] show "\<exists>pre post. s = pre @ sub @ post" by blast
next
  assume "\<exists>pre post. s = pre @ sub @ post"
  then obtain pre post where s: "s = pre @ sub @ post" by blast
  show "str_contains sub s"
  proof (rule ccontr)
    assume "\<not> str_contains sub s"
    then have "str_find sub s = None" by (simp add: str_contains_def)
    from str_find_None [OF this, of "length pre"] s show False by simp
  qed
qed

lemma str_contains_single: "str_contains [c] s \<longleftrightarrow> c \<in> set s"
  by (simp add: str_contains_iff in_set_conv_decomp)

lemma rdrop_keeps_hd:
  "\<not> P x \<Longrightarrow> rev (dropWhile P (rev (x # xs))) = x # rev (dropWhile P (rev xs))"
  by (simp add: dropWhile_append3)

lemma rdrop_fixed:
  "t = [] \<or> \<not> P (last t) \<Longrightarrow> rev (dropWhile P (rev t)) = t"
  by (cases t rule: rev_cases) auto

lemma str_strip_Nil [simp]: "str_strip [] = []"
  by (simp add: str_strip_def)

text \<open>A stripped text is empty or begins and ends with a character that is not whitespace.\<close>

lemma str_strip_ends:
  "str_strip s \<noteq> [] \<Longrightarrow> \<not> isspace (hd (str_strip s)) \<and> \<not> isspace (last (str_strip s))"
proof -
  assume ne: "str_strip s \<noteq> []"
  let ?t = "dropWhile isspace s"
  let ?u = "dropWhile isspace (rev ?t)"
  from ne have u: "?u \<noteq> []" by (simp add: str_strip_def)
  then have t: "?t \<noteq> []" by (metis dropWhile.simps(1) rev.simps(1))
  have "\<not> isspace (hd ?u)" using u by (rule hd_dropWhile)
  then have l: "\<not> isspace (last (str_strip s))"
    using u by (simp add: str_strip_def last_rev)
  have ht: "\<not> isspace (hd ?t)" using t by (rule hd_dropWhile)
  from t obtain x xs where c: "?t = x # xs" by (cases ?t) auto
  with ht have "\<not> isspace x" by simp
  from rdrop_keeps_hd [of isspace x xs] \<open>\<not> isspace x\<close> c have "hd (str_strip s) = x"
    by (simp add: str_strip_def)
  with \<open>\<not> isspace x\<close> l show ?thesis by simp
qed

lemma str_strip_fixed:
  "t = [] \<or> (\<not> isspace (hd t) \<and> \<not> isspace (last t)) \<Longrightarrow> str_strip t = t"
proof (cases t)
  case Nil
  then show ?thesis by simp
next
  case (Cons x xs)
  assume "t = [] \<or> (\<not> isspace (hd t) \<and> \<not> isspace (last t))"
  with Cons have a: "\<not> isspace x" and b: "\<not> isspace (last t)" by auto
  from a Cons have "dropWhile isspace t = t" by simp
  moreover from b have "rev (dropWhile isspace (rev t)) = t" by (simp add: rdrop_fixed)
  ultimately show ?thesis by (simp add: str_strip_def)
qed

lemma str_strip_idem: "str_strip (str_strip s) = str_strip s"
  using str_strip_ends [of s] by (intro str_strip_fixed) blast

text \<open>Stripping removes whitespace, and only whitespace, from both ends.\<close>

lemma str_strip_decomp:
  "\<exists>a b. s = a @ str_strip s @ b \<and> (\<forall>c\<in>set a. isspace c) \<and> (\<forall>c\<in>set b. isspace c)"
proof -
  let ?t = "dropWhile isspace s"
  let ?r = "rev ?t"
  have 1: "s = takeWhile isspace s @ ?t" by simp
  have "?r = takeWhile isspace ?r @ dropWhile isspace ?r" by simp
  then have "rev ?r = rev (dropWhile isspace ?r) @ rev (takeWhile isspace ?r)"
    by (metis rev_append)
  then have 2: "?t = str_strip s @ rev (takeWhile isspace ?r)"
    by (simp add: str_strip_def)
  have 3: "\<forall>c\<in>set (takeWhile isspace s). isspace c" by (auto dest: set_takeWhileD)
  have 4: "\<forall>c\<in>set (rev (takeWhile isspace ?r)). isspace c" by (auto dest: set_takeWhileD)
  from 1 2 have "s = takeWhile isspace s @ str_strip s @ rev (takeWhile isspace ?r)" by metis
  with 3 4 show ?thesis by blast
qed

lemma set_str_strip: "set (str_strip s) \<subseteq> set s"
proof -
  have "set (str_strip s) = set (dropWhile isspace (rev (dropWhile isspace s)))"
    by (simp add: str_strip_def)
  also have "\<dots> \<subseteq> set (rev (dropWhile isspace s))" by (rule set_dropWhileD [THEN subsetI])
  also have "\<dots> \<subseteq> set s" by (auto dest: set_dropWhileD)
  finally show ?thesis .
qed

lemma str_split_ne [simp]: "str_split sep s \<noteq> []"
  by (induction s) (auto split: list.splits)

lemma str_split_no_sep: "p \<in> set (str_split sep s) \<Longrightarrow> sep \<notin> set p"
  by (induction s arbitrary: p) (auto split: if_splits list.splits)

lemma set_str_split: "p \<in> set (str_split sep s) \<Longrightarrow> x \<in> set p \<Longrightarrow> x \<in> set s"
  by (induction s arbitrary: p) (fastforce split: if_splits list.splits)+

lemma str_split_sep_free: "sep \<notin> set s \<Longrightarrow> str_split sep s = [s]"
  by (induction s) auto

lemma str_split_append:
  "sep \<notin> set x \<Longrightarrow> str_split sep (x @ sep # r) = x # str_split sep r"
  by (induction x) auto

text \<open>Splitting a join on its separator gives the joined pieces back.\<close>

lemma str_split_join:
  "xs \<noteq> [] \<Longrightarrow> \<forall>x\<in>set xs. sep \<notin> set x \<Longrightarrow> str_split sep (str_join [sep] xs) = xs"
proof (induction xs)
  case Nil
  then show ?case by simp
next
  case (Cons x xs)
  show ?case
  proof (cases xs)
    case Nil
    with Cons.prems show ?thesis by (simp add: str_split_sep_free)
  next
    case (Cons y ys)
    with Cons.IH Cons.prems have "str_split sep (str_join [sep] xs) = xs" by simp
    with Cons Cons.prems show ?thesis by (simp add: str_split_append)
  qed
qed

lemma set_str_replace: "old \<noteq> new \<Longrightarrow> old \<notin> set (str_replace old new s)"
  by (auto simp: str_replace_def)

lemma set_str_replace_other:
  "x \<in> set (str_replace old new s) \<Longrightarrow> x \<noteq> new \<Longrightarrow> x \<in> set s"
  by (auto simp: str_replace_def split: if_splits)

section \<open>Facts about the key-actions formatting\<close>

lemma extract_at_first_marker:
  assumes "s = pre @ marker @ post" and "\<forall>j<length pre. \<not> prefix marker (drop j s)"
  shows "extract_key_actions s = str_strip post"
proof -
  from str_find_first [OF assms] have f: "str_find marker s = Some (length pre)" .
  then have "str_contains marker s" by (simp add: str_contains_def)
  with f show ?thesis
    using assms(1) by (simp add: extract_key_actions_def str_split1_def)
qed

lemma points_of_spec: "points_of t = spec_fragments t"
  by (simp add: points_of_def spec_fragments_def filter_map comp_def)

lemma display_verbatim:
  "str_contains ''- '' t \<or> str_contains [CHR 0x0A] t \<Longrightarrow> display_key_actions t = t"
  by (simp add: display_key_actions_def)

lemma display_bullets:
  "t \<noteq> [] \<Longrightarrow> \<not> str_contains ''- '' t \<Longrightarrow> \<not> str_contains [CHR 0x0A] t \<Longrightarrow>
   1 < length (points_of t) \<Longrightarrow>
   display_key_actions t = str_join [CHR 0x0A] (map (\<lambda>pt. ''- '' @ pt) (points_of t))"
  unfolding display_key_actions_def Let_def by (simp only: simp_thms if_True)

lemma display_single:
  "length (points_of t) \<le> 1 \<Longrightarrow> display_key_actions t = t"
  by (simp add: display_key_actions_def)

lemma points_of_props:
  assumes "p \<in> set (points_of t)"
  shows "p \<noteq> []" and "\<not> isspace (hd p)" and "\<not> isspace (last p)"
    and "CHR ''.'' \<notin> set p" and "CHR '';'' \<notin> set p"
    and "CHR 0x0A \<notin> set t \<Longrightarrow> CHR 0x0A \<notin> set p"
proof -
  let ?r = "str_replace (CHR '';'') (CHR ''.'') t"
  from assms obtain q where q: "q \<in> set (str_split (CHR ''.'') ?r)"
    and ne: "str_strip q \<noteq> []" and p: "p = str_strip q"
    by (auto simp: points_of_def)
  from ne p show "p \<noteq> []" by simp
  from str_strip_ends [OF ne] p show "\<not> isspace (hd p)" and "\<not> isspace (last p)" by simp_all
  have sub: "set p \<subseteq> set q" using p set_str_strip by simp
  from str_split_no_sep [OF q] sub show "CHR ''.'' \<notin> set p" by blast
  have qr: "set q \<subseteq> set ?r" using set_str_split [OF q] by blast
  have "CHR '';'' \<notin> set ?r" by (rule set_str_replace) simp
  with sub qr show "CHR '';'' \<notin> set p" by blast
  show "CHR 0x0A \<notin> set p" if "CHR 0x0A \<notin> set t"
  proof
    assume "CHR 0x0A \<in> set p"
    with sub qr have "CHR 0x0A \<in> set ?r" by blast
    then have "CHR 0x0A \<in> set t" by (rule set_str_replace_other) simp
    with that show False by simp
  qed
qed

text \<open>The formatting is idempotent on every text, since bulleted output starts with a dash.\<close>

lemma display_idem: "display_key_actions (display_key_actions t) = display_key_actions t"
proof (cases "t \<noteq> [] \<and> \<not> str_contains ''- '' t \<and> \<not> str_contains [CHR 0x0A] t \<and> 1 < length (points_of t)")
  case True
  then obtain p q ps where ps: "points_of t = p # q # ps"
    by (cases "points_of t"; cases "tl (points_of t)") auto
  with True have "display_key_actions t = ''- '' @ p @ [CHR 0x0A] @ str_join [CHR 0x0A] (map (\<lambda>pt. ''- '' @ pt) (q # ps))"
    by (simp add: display_bullets)
  then have "str_contains ''- '' (display_key_actions t)"
    unfolding str_contains_iff by (metis append_Nil)
  then show ?thesis by (simp add: display_verbatim)
next
  case False
  then have "display_key_actions t = t" by (auto simp: display_key_actions_def)
  then show ?thesis by simp
qed

section \<open>Facts about the polling loop\<close>

lemma poll_waiting:
  "non_terminal (get n) st \<Longrightarrow> poll get n r = poll get (Suc n) (emit (StatusWaiting st) r)"
  by (subst poll.simps) (simp add: non_terminal_def)

lemma poll_completed:
  "json_field (get n) ''status'' = Inr (JStr ''completed'') \<Longrightarrow>
   json_field (get n) ''text'' = Inr t \<Longrightarrow>
   poll get n r =
     Some (emit TranscriptionCompleted (r\<lparr>session_state := (session_state r)\<lparr>transcript := t\<rparr>\<rparr>))"
  by (subst poll.simps) simp

lemma poll_error:
  "json_field (get n) ''status'' = Inr (JStr ''error'') \<Longrightarrow>
   poll get n r = Some (emit TranscriptionFailed r)"
  by (subst poll.simps) simp

lemma poll_skip:
  "\<forall>i. k \<le> i \<and> i < n \<longrightarrow> non_terminal (get i) (st i) \<Longrightarrow> k \<le> n \<Longrightarrow>
   poll get k r = poll get n (r\<lparr>shown := shown r @ waiting st k n\<rparr>)"
proof (induction n)
  case 0
  then show ?case by (simp add: waiting_def)
next
  case (Suc n)
  show ?case
  proof (cases "k = Suc n")
    case True
    then show ?thesis by (simp add: waiting_def)
  next
    case False
    with Suc.prems have kn: "k \<le> n" by simp
    with Suc.prems have nt: "non_terminal (get n) (st n)" by simp
    from Suc.IH Suc.prems kn
    have "poll get k r = poll get n (r\<lparr>shown := shown r @ waiting st k n\<rparr>)" by simp
    also have "\<dots> = poll get (Suc n) (emit (StatusWaiting (st n)) (r\<lparr>shown := shown r @ waiting st k n\<rparr>))"
      using nt by (rule poll_waiting)
    also have "emit (StatusWaiting (st n)) (r\<lparr>shown := shown r @ waiting st k n\<rparr>) =
        r\<lparr>shown := shown r @ waiting st k (Suc n)\<rparr>"
      using kn by (simp add: emit_def waiting_def)
    finally show ?thesis .
  qed
qed

lemma poll_Some_terminal:
  "poll get n r = Some y \<Longrightarrow> \<exists>m\<ge>n. \<forall>st. \<not> non_terminal (get m) st"
proof (induction get n r y rule: poll.raw_induct [rotated, consumes 1])
  case (1 poll' get n r y)
  show ?case
  proof (cases "\<exists>st. non_terminal (get n) st")
    case True
    then obtain st where st: "non_terminal (get n) st" by blast
    then have s1: "json_field (get n) ''status'' = Inr st"
      and s2: "st \<noteq> JStr ''completed''" and s3: "st \<noteq> JStr ''error''"
      by (simp_all add: non_terminal_def)
    have a: "poll' get (Suc n) (emit (StatusWaiting st) r) = Some y"
      using "1.hyps" s2 s3 unfolding s1 by simp
    from "1.IH" [OF a] obtain m where "Suc n \<le> m" "\<forall>st. \<not> non_terminal (get m) st"
      by blast
    then show ?thesis by (meson Suc_leD)
  next
    case False
    then show ?thesis by blast
  qed
qed

lemma poll_never:
  "\<forall>i. non_terminal (get i) (st i) \<Longrightarrow> poll get n r = None"
proof (rule ccontr)
  assume a: "\<forall>i. non_terminal (get i) (st i)" and "poll get n r \<noteq> None"
  then obtain y where "poll get n r = Some y" by blast
  from poll_Some_terminal [OF this] a show False by blast
qed

lemma well_formed_cases:
  "well_formed res \<Longrightarrow> terminal res \<or> (\<exists>st. non_terminal res st)"
  by (auto simp: well_formed_def terminal_def non_terminal_def split: sum.splits if_splits)

lemma terminal_not_non_terminal: "terminal res \<Longrightarrow> \<not> non_terminal res st"
  by (auto simp: terminal_def non_terminal_def)

lemma poll_terminal_returns:
  assumes wf: "\<forall>i. well_formed (get i)" and t: "terminal (get n)"
  shows "\<exists>y. poll get 0 r = Some y"
proof -
  define m where "m = (LEAST j. terminal (get j))"
  have tm: "terminal (get m)" unfolding m_def using t by (rule LeastI)
  have "\<forall>i. \<exists>st. i < m \<longrightarrow> non_terminal (get i) st"
  proof
    fix i
    show "\<exists>st. i < m \<longrightarrow> non_terminal (get i) st"
    proof (cases "i < m")
      case True
      then have "\<not> terminal (get i)" unfolding m_def by (rule not_less_Least)
      with wf well_formed_cases show ?thesis by blast
    next
      case False
      then show ?thesis by simp
    qed
  qed
  then have "\<exists>st. \<forall>i. i < m \<longrightarrow> non_terminal (get i) (st i)" by (rule choice)
  then obtain st where st: "\<forall>i<m. non_terminal (get i) (st i)" by blast
  then have sk: "poll get 0 r = poll get m (r\<lparr>shown := shown r @ waiting st 0 m\<rparr>)"
    by (intro poll_skip) auto
  from tm show ?thesis
  proof (unfold terminal_def, elim disjE)
    assume c: "json_field (get m) ''status'' = Inr (JStr ''completed'')"
    from wf have "well_formed (get m)" by simp
    with c have "\<exists>t. json_field (get m) ''text'' = Inr t"
      by (cases "json_field (get m) ''text''") (simp_all add: well_formed_def)
    then obtain t' where "json_field (get m) ''text'' = Inr t'" by blast
    with c sk show ?thesis by (simp add: poll_completed)
  next
    assume "json_field (get m) ''status'' = Inr (JStr ''error'')"
    with sk show ?thesis by (simp add: poll_error)
  qed
qed

lemma demo_waiting: "\<forall>i<2. non_terminal (demo_polls l i) (demo_statuses i)"
  by (auto simp: less_Suc_eq numeral_2_eq_2 demo_polls_def demo_statuses_def non_terminal_def
      json_field_def ok_json_def)

text \<open>
  A response without a status, or a completed one without a text, ends the loop by the
  exception of the failed lookup. A run that ends without an exception has met a terminal
  response, after non-terminal ones only.
\<close>

lemma raised_emit [simp]: "raised (emit x r) = raised r"
  by (simp add: emit_def)

lemma raised_raise [simp]: "raised (raise e r) = Some e"
  by (simp add: raise_def)

lemma poll_no_status:
  "json_field (get n) ''status'' = Inl e \<Longrightarrow> poll get n r = Some (raise e r)"
  by (subst poll.simps) simp

lemma poll_completed_no_text:
  "json_field (get n) ''status'' = Inr (JStr ''completed'') \<Longrightarrow>
   json_field (get n) ''text'' = Inl e \<Longrightarrow> poll get n r = Some (raise e r)"
  by (subst poll.simps) simp

lemma no_status_polls_never_terminal: "\<not> terminal (no_status_polls i)"
  by (simp add: terminal_def no_status_polls_def json_field_def)

lemma poll_normal_exit:
  "poll get k r = Some y \<Longrightarrow> raised y = None \<Longrightarrow>
   \<exists>n\<ge>k. terminal (get n) \<and> (\<forall>i. k \<le> i \<and> i < n \<longrightarrow> (\<exists>st. non_terminal (get i) st))"
proof (induction get k r y rule: poll.raw_induct [rotated, consumes 1])
  case (1 poll' get k r y)
  show ?case
  proof (cases "json_field (get k) ''status''")
    case (Inl e)
    with "1.hyps" have "y = raise e r" by simp
    with "1.prems" show ?thesis by simp
  next
    case (Inr st)
    show ?thesis
    proof (cases "st = JStr ''completed'' \<or> st = JStr ''error''")
      case True
      with Inr have "terminal (get k)" by (auto simp: terminal_def)
      then show ?thesis by (intro exI [of _ k]) auto
    next
      case False
      with Inr have nt: "non_terminal (get k) st" by (simp add: non_terminal_def)
      from False have s2: "st \<noteq> JStr ''completed''" and s3: "st \<noteq> JStr ''error''" by simp_all
      have a: "poll' get (Suc k) (emit (StatusWaiting st) r) = Some y"
        using "1.hyps" s2 s3 unfolding Inr by simp
      from "1.IH" [OF a "1.prems"] obtain n where n: "Suc k \<le> n" "terminal (get n)"
        "\<forall>i. Suc k \<le> i \<and> i < n \<longrightarrow> (\<exists>st. non_terminal (get i) st)" by blast
      have "\<forall>i. k \<le> i \<and> i < n \<longrightarrow> (\<exists>st. non_terminal (get i) st)"
      proof (intro allI impI)
        fix i assume i: "k \<le> i \<and> i < n"
        show "\<exists>st. non_terminal (get i) st"
        proof (cases "i = k")
          case True
          with nt show ?thesis by blast
        next
          case False
          with i have "Suc k \<le> i \<and> i < n" by simp
          with n(3) show ?thesis by blast
        qed
      qed
      with n(1,2) show ?thesis by (intro exI [of _ n]) auto
    qed
  qed
qed

lemma broken_waiting: "\<forall>i<2. non_terminal (broken_polls i) (demo_statuses i)"
  using demo_waiting [of "JStr ''completed''"] by (simp add: broken_polls_def)

section \<open>Facts about runs and pages\<close>

lemma session_state_emit [simp]: "session_state (emit x r) = session_state r"
  by (simp add: emit_def)

lemma session_state_raise [simp]: "session_state (raise e r) = session_state r"
  by (simp add: raise_def)

lemma session_state_begin_run [simp]: "session_state (begin_run s) = s"
  by (simp add: begin_run_def)

lemma session_state_show_summary [simp]: "session_state (show_summary r) = session_state r"
  by (cases "summary (session_state r)") (simp_all add: show_summary_def Let_def)

lemma shown_emit [simp]: "shown (emit x r) = shown r @ [x]"
  by (simp add: emit_def)

lemma shown_raise [simp]: "shown (raise e r) = shown r"
  by (simp add: raise_def)

lemma shown_begin_run [simp]: "shown (begin_run s) = []"
  by (simp add: begin_run_def)

lemma text_area_values_append [simp]:
  "text_area_values (xs @ ys) = text_area_values xs @ text_area_values ys"
  by (induction xs rule: text_area_values.induct) simp_all

lemma download_data_append [simp]:
  "download_data (xs @ ys) = download_data xs @ download_data ys"
  by (induction xs rule: download_data.induct) simp_all

lemma shown_generate_summary:
  "text_area_values (shown (generate_summary res r)) = text_area_values (shown r) \<and>
   download_data (shown (generate_summary res r)) = download_data (shown r)"
  by (simp add: generate_summary_def split: sum.splits)

lemma show_summary_str:
  "summary (session_state r) = JStr t \<Longrightarrow> t \<noteq> [] \<Longrightarrow>
   show_summary r =
     emit (DownloadButton (summary_view t) ''summary.txt'') (emit (TextArea [] (summary_view t)) r)"
  by (simp add: show_summary_def)

lemma show_summary_same:
  "text_area_values (shown r) = download_data (shown r) \<Longrightarrow>
   text_area_values (shown (show_summary r)) = download_data (shown (show_summary r))"
  by (cases "summary (session_state r)") (simp_all add: show_summary_def Let_def)

section \<open>Facts about the Summary view\<close>

text \<open>
  Without the marker no key actions are extracted. On a text without leading whitespace
  the Summary view of the code is the one of the specification.
\<close>

lemma no_marker_key_actions:
  "\<not> str_contains marker s \<Longrightarrow>
     extract_key_actions s = [] \<and> display_key_actions (extract_key_actions s) = [] \<and>
     key_insights_view s = ''No key actions found.''"
  by (simp add: extract_key_actions_def key_insights_view_def display_key_actions_def
      or_placeholder_def)

lemma key_actions_need_marker:
  "extract_key_actions s \<noteq> [] \<Longrightarrow> str_contains marker s"
  by (simp add: extract_key_actions_def split: if_splits)

lemma hd_str_split1:
  "hd (str_split1 sep s) = (case str_find sep s of None \<Rightarrow> s | Some i \<Rightarrow> take i s)"
  by (simp add: str_split1_def split: option.splits)

lemma summary_view_unlabelled:
  "\<not> str_contains marker s \<Longrightarrow> \<not> str_startswith (str_strip (str_lower s)) ''summary:'' \<Longrightarrow>
   summary_view s = s"
  by (simp add: summary_view_def)

lemma isspace_lower_char [simp]: "isspace (lower_char c) = isspace c"
proof -
  let ?n = "of_char c :: nat"
  show ?thesis
  proof (cases "(65 \<le> ?n \<and> ?n \<le> 90) \<or> (192 \<le> ?n \<and> ?n \<le> 222 \<and> ?n \<noteq> 215)")
    case True
    then have e: "(of_char (char_of (?n + 32) :: char) :: nat) = ?n + 32"
      by (auto simp: of_char_of)
    from True have "\<not> isspace (char_of (?n + 32))"
      unfolding isspace_def Let_def e by arith
    moreover from True have "\<not> isspace c" unfolding isspace_def Let_def by arith
    moreover have "lower_char c = char_of (?n + 32)"
      unfolding lower_char_def Let_def using True by (simp only: if_True)
    ultimately show ?thesis by simp
  next
    case False
    have "lower_char c = c"
      unfolding lower_char_def Let_def using False by (simp only: if_False)
    then show ?thesis by simp
  qed
qed

lemma str_lower_strip: "str_lower (str_strip t) = str_strip (str_lower t)"
proof -
  have c: "isspace \<circ> lower_char = isspace" by (rule ext) simp
  show ?thesis
    by (simp add: str_lower_def str_strip_def rev_map dropWhile_map c)
qed

lemma str_strip_trailing:
  "\<forall>c\<in>set ws. isspace c \<Longrightarrow> str_strip (x @ ws) = str_strip x"
proof (cases "\<forall>c\<in>set x. isspace c")
  case True
  assume "\<forall>c\<in>set ws. isspace c"
  with True have "dropWhile isspace (x @ ws) = []" and "dropWhile isspace x = []"
    by (auto simp: dropWhile_eq_Nil_conv)
  then show ?thesis unfolding str_strip_def by (simp only: rev.simps dropWhile.simps)
next
  case False
  assume ws: "\<forall>c\<in>set ws. isspace c"
  from False obtain c where "c \<in> set x" "\<not> isspace c" by blast
  then have "dropWhile isspace (x @ ws) = dropWhile isspace x @ ws"
    by (rule dropWhile_append1)
  moreover have "dropWhile isspace (rev ws @ rev (dropWhile isspace x)) =
      dropWhile isspace (rev (dropWhile isspace x))"
    using ws by (intro dropWhile_append2) simp
  ultimately show ?thesis by (simp add: str_strip_def)
qed

lemma str_strip_no_leading:
  assumes "t = [] \<or> \<not> isspace (hd t)"
  shows "\<exists>ws. t = str_strip t @ ws \<and> (\<forall>c\<in>set ws. isspace c)"
proof -
  from assms have d: "dropWhile isspace t = t" by (cases t) auto
  let ?r = "rev t"
  have "?r = takeWhile isspace ?r @ dropWhile isspace ?r" by simp
  then have "rev ?r = rev (dropWhile isspace ?r) @ rev (takeWhile isspace ?r)"
    by (metis rev_append)
  then have "t = str_strip t @ rev (takeWhile isspace ?r)"
    by (simp add: str_strip_def d)
  moreover have "\<forall>c\<in>set (rev (takeWhile isspace ?r)). isspace c"
    by (auto dest: set_takeWhileD)
  ultimately show ?thesis by blast
qed

lemma summary_view_agrees:
  assumes "s = [] \<or> \<not> isspace (hd s)"
  shows "summary_view s = spec_summary_view s"
proof -
  define t where "t = (case str_find marker s of None \<Rightarrow> s | Some i \<Rightarrow> take i s)"
  define k where "k = length ''summary:''"
  have sv: "summary_view s =
      (if str_startswith (str_strip (str_lower t)) ''summary:''
       then str_strip (drop k t) else t)"
    by (simp add: summary_view_def t_def k_def hd_str_split1 str_contains_def split: option.splits)
  have sp: "spec_summary_view s =
      (if str_startswith (str_strip (str_lower t)) ''summary:''
       then str_strip (drop k (str_strip t)) else t)"
    by (simp add: spec_summary_view_def t_def k_def str_lower_strip)
  have lead: "t = [] \<or> \<not> isspace (hd t)"
  proof (cases "str_find marker s")
    case None
    with assms show ?thesis by (simp add: t_def)
  next
    case (Some i)
    with assms show ?thesis by (cases s; cases i) (simp_all add: t_def)
  qed
  from str_strip_no_leading [OF lead] obtain ws where
    ws: "t = str_strip t @ ws" "\<forall>c\<in>set ws. isspace c" by blast
  show ?thesis
  proof (cases "str_startswith (str_strip (str_lower t)) ''summary:''")
    case False
    with sv sp show ?thesis by simp
  next
    case True
    then have "prefix ''summary:'' (str_lower (str_strip t))"
      by (simp add: str_startswith_def str_lower_strip)
    then have "length ''summary:'' \<le> length (str_lower (str_strip t))"
      by (rule prefix_length_le)
    then have len: "k \<le> length (str_strip t)" by (simp add: str_lower_def k_def)
    have "drop k t = drop k (str_strip t @ ws)" using ws(1) by simp
    also have "\<dots> = drop k (str_strip t) @ ws" using len by simp
    finally have "str_strip (drop k t) = str_strip (drop k (str_strip t))"
      using ws(2) by (simp add: str_strip_trailing)
    with True sv sp show ?thesis by simp
  qed
qed

section \<open>Claims about the key-actions view\<close>

text \<open>
  C1. For a key-actions text that is non-empty and contains neither a newline nor a dash
  followed by a space, the displayed value is the bullet list of the specification whenever
  more than one fragment survives; the text "Check vitals. Schedule follow-up. Order
  bloodwork." yields the three lines "- Check vitals", "- Schedule follow-up" and
  "- Order bloodwork"; a text that contains a newline or a dash followed by a space is shown
  verbatim.
\<close>

theorem display_key_actions_refines_spec:
  "(ka \<noteq> [] \<and> \<not> str_contains [CHR 0x0A] ka \<and>
      \<not> str_contains ''- '' ka \<and> 1 < length (spec_fragments ka)
      \<longrightarrow> display_key_actions ka = spec_bullets ka)
   \<and> display_key_actions ''Check vitals. Schedule follow-up. Order bloodwork.'' =
       ''- Check vitals'' @ [CHR 0x0A] @ ''- Schedule follow-up'' @ [CHR 0x0A] @ ''- Order bloodwork''
   \<and> (str_contains [CHR 0x0A] ka \<or> str_contains ''- '' ka
      \<longrightarrow> display_key_actions ka = ka)"
proof (intro conjI impI)
  assume "ka \<noteq> [] \<and> \<not> str_contains [CHR 0x0A] ka \<and>
      \<not> str_contains ''- '' ka \<and> 1 < length (spec_fragments ka)"
  then show "display_key_actions ka = spec_bullets ka"
    by (simp add: display_bullets spec_bullets_def points_of_spec)
next
  show "display_key_actions ''Check vitals. Schedule follow-up. Order bloodwork.'' =
       ''- Check vitals'' @ [CHR 0x0A] @ ''- Schedule follow-up'' @ [CHR 0x0A] @ ''- Order bloodwork''"
    by code_simp
next
  assume "str_contains [CHR 0x0A] ka \<or> str_contains ''- '' ka"
  then show "display_key_actions ka = ka"
    by (auto simp: display_verbatim)
qed

theorem display_key_actions_refines_spec_witness:
  "''Rest; drink fluids.'' \<noteq> [] \<and> \<not> str_contains [CHR 0x0A] ''Rest; drink fluids.'' \<and>
   \<not> str_contains ''- '' ''Rest; drink fluids.'' \<and> 1 < length (spec_fragments ''Rest; drink fluids.'') \<and>
   display_key_actions ''Rest; drink fluids.'' = spec_bullets ''Rest; drink fluids.'' \<and>
   spec_bullets ''Rest; drink fluids.'' = ''- Rest'' @ [CHR 0x0A] @ ''- drink fluids'' \<and>
   str_contains ''- '' ''- Rest. - Sleep.'' \<and>
   display_key_actions ''- Rest. - Sleep.'' = ''- Rest. - Sleep.''"
proof -
  have h1: "''Rest; drink fluids.'' \<noteq> [] \<and> \<not> str_contains [CHR 0x0A] ''Rest; drink fluids.'' \<and>
   \<not> str_contains ''- '' ''Rest; drink fluids.'' \<and> 1 < length (spec_fragments ''Rest; drink fluids.'')"
    by code_simp
  have h2: "str_contains ''- '' ''- Rest. - Sleep.''" by code_simp
  have v: "spec_bullets ''Rest; drink fluids.'' = ''- Rest'' @ [CHR 0x0A] @ ''- drink fluids''"
    by code_simp
  from display_key_actions_refines_spec [of "''Rest; drink fluids.''"] h1
  have a: "display_key_actions ''Rest; drink fluids.'' = spec_bullets ''Rest; drink fluids.''"
    by blast
  from display_key_actions_refines_spec [of "''- Rest. - Sleep.''"] h2
  have b: "display_key_actions ''- Rest. - Sleep.'' = ''- Rest. - Sleep.''"
    by blast
  from h1 h2 v a b show ?thesis by blast
qed

text \<open>
  C3. For a summary text that contains the marker "Key Actions:", the extracted
  key-actions text is the part of the summary strictly after the first occurrence of the
  marker, stripped of surrounding whitespace: the summary splits at an occurrence of the
  marker that no occurrence precedes, and for every such split the extracted text lies in
  the part after the marker between two runs of whitespace, and is empty or begins and
  ends with a character that is not whitespace.
\<close>

theorem extract_key_actions_after_first_marker:
  "(str_contains marker s \<longrightarrow>
      (\<exists>pre post. s = pre @ marker @ post \<and>
         (\<forall>j<length pre. \<not> prefix marker (drop j s)) \<and>
         extract_key_actions s = str_strip post))
   \<and> (s = pre @ marker @ post \<and> (\<forall>j<length pre. \<not> prefix marker (drop j s)) \<longrightarrow>
        extract_key_actions s = str_strip post \<and>
        (\<exists>a b. post = a @ extract_key_actions s @ b \<and>
               (\<forall>c\<in>set a. isspace c) \<and> (\<forall>c\<in>set b. isspace c)) \<and>
        (extract_key_actions s = [] \<or>
         (\<not> isspace (hd (extract_key_actions s)) \<and>
          \<not> isspace (last (extract_key_actions s)))))"
proof (intro conjI impI)
  assume c: "str_contains marker s"
  then obtain i where i: "str_find marker s = Some i" by (auto simp: str_contains_def)
  let ?pre = "take i s" and ?post = "drop (i + length marker) s"
  from str_find_Some [OF i] have
    eq: "s = ?pre @ marker @ ?post" and least: "\<forall>j<i. \<not> prefix marker (drop j s)"
    by simp_all
  from str_find_bound [OF i] have len: "length ?pre = i" by simp
  have "extract_key_actions s = str_strip ?post"
    using c i by (simp add: extract_key_actions_def str_split1_def)
  with eq least len show "\<exists>pre post. s = pre @ marker @ post \<and>
         (\<forall>j<length pre. \<not> prefix marker (drop j s)) \<and>
         extract_key_actions s = str_strip post" by metis
next
  assume a: "s = pre @ marker @ post \<and> (\<forall>j<length pre. \<not> prefix marker (drop j s))"
  then have a1: "s = pre @ marker @ post"
    and a2: "\<forall>j<length pre. \<not> prefix marker (drop j s)" by blast+
  from a1 a2 show e: "extract_key_actions s = str_strip post"
    by (rule extract_at_first_marker)
  from str_strip_decomp [of post]
  show "\<exists>a b. post = a @ extract_key_actions s @ b \<and>
               (\<forall>c\<in>set a. isspace c) \<and> (\<forall>c\<in>set b. isspace c)"
    unfolding e .
  from str_strip_ends [of post]
  show "extract_key_actions s = [] \<or>
         (\<not> isspace (hd (extract_key_actions s)) \<and>
          \<not> isspace (last (extract_key_actions s)))"
    unfolding e by blast
qed

theorem extract_key_actions_after_first_marker_witness:
  "''Summary: ok. Key Actions:  Rest. '' = ''Summary: ok. '' @ marker @ ''  Rest. '' \<and>
   str_find marker ''Summary: ok. Key Actions:  Rest. '' = Some (length ''Summary: ok. '') \<and>
   str_contains marker ''Summary: ok. Key Actions:  Rest. '' \<and>
   extract_key_actions ''Summary: ok. Key Actions:  Rest. '' = ''Rest.'' \<and>
   ''  Rest. '' = ''  '' @ ''Rest.'' @ '' '' \<and>
   \<not> isspace (hd ''Rest.'') \<and> \<not> isspace (last ''Rest.'') \<and>
   isspace (hd ''  Rest. '') \<and> isspace (last ''  Rest. '')"
proof -
  let ?s = "''Summary: ok. Key Actions:  Rest. ''"
  have h1: "?s = ''Summary: ok. '' @ marker @ ''  Rest. ''" by (simp add: marker_def)
  have f: "str_find marker ?s = Some (length ''Summary: ok. '')" by code_simp
  from str_find_Some [OF f] have h2: "\<forall>j<length ''Summary: ok. ''. \<not> prefix marker (drop j ?s)"
    by blast
  have c: "str_contains marker ?s" using f by (simp add: str_contains_def)
  have v: "str_strip ''  Rest. '' = ''Rest.''" by code_simp
  from extract_key_actions_after_first_marker [of ?s "''Summary: ok. ''" "''  Rest. ''"] h1 h2
  have "extract_key_actions ?s = str_strip ''  Rest. ''" by blast
  then have e: "extract_key_actions ?s = ''Rest.''" unfolding v .
  have d: "''  Rest. '' = ''  '' @ ''Rest.'' @ '' ''" by simp
  have w: "\<not> isspace (hd ''Rest.'') \<and> \<not> isspace (last ''Rest.'') \<and>
   isspace (hd ''  Rest. '') \<and> isspace (last ''  Rest. '')" by code_simp
  from h1 f c e d w show ?thesis by blast
qed

text \<open>
  C5. Formatting the output of the key-actions formatting again, when that output is
  bulleted (it contains a dash followed by a space, or a newline), returns it unchanged.
\<close>

theorem display_key_actions_idempotent_on_bulleted:
  "str_contains ''- '' (display_key_actions ka) \<or>
   str_contains [CHR 0x0A] (display_key_actions ka) \<Longrightarrow>
   display_key_actions (display_key_actions ka) = display_key_actions ka"
  by (rule display_verbatim)

theorem display_key_actions_idempotent_on_bulleted_witness:
  "str_contains ''- '' (display_key_actions ''Rest; drink fluids.'') \<and>
   display_key_actions (display_key_actions ''Rest; drink fluids.'') =
     ''- Rest'' @ [CHR 0x0A] @ ''- drink fluids''"
proof -
  have h: "str_contains ''- '' (display_key_actions ''Rest; drink fluids.'')" by code_simp
  have v: "display_key_actions ''Rest; drink fluids.'' = ''- Rest'' @ [CHR 0x0A] @ ''- drink fluids''"
    by code_simp
  from display_key_actions_idempotent_on_bulleted [of "''Rest; drink fluids.''"] h
  have "display_key_actions (display_key_actions ''Rest; drink fluids.'') =
     display_key_actions ''Rest; drink fluids.''" by blast
  with h v show ?thesis by simp
qed

text \<open>
  C8. When the bullet formatting applies (the text is non-empty, contains neither a dash
  followed by a space nor a newline, and more than one fragment survives), no line of the
  output contains a period or a semicolon, and every line is a dash and a space followed by
  a non-empty fragment that neither begins nor ends with whitespace.
\<close>

theorem bullet_lines_clean:
  assumes "ka \<noteq> []"
    and "\<not> str_contains ''- '' ka"
    and "\<not> str_contains [CHR 0x0A] ka"
    and "1 < length (points_of ka)"
  shows "\<forall>line \<in> set (str_split (CHR 0x0A) (display_key_actions ka)).
           CHR ''.'' \<notin> set line \<and> CHR '';'' \<notin> set line \<and>
           (\<exists>frag. line = ''- '' @ frag \<and> frag \<noteq> [] \<and>
                   \<not> isspace (hd frag) \<and> \<not> isspace (last frag))"
proof -
  let ?ls = "map (\<lambda>pt. ''- '' @ pt) (points_of ka)"
  from assms(3) have nl: "CHR 0x0A \<notin> set ka" by (simp add: str_contains_single)
  have d: "display_key_actions ka = str_join [CHR 0x0A] ?ls"
    using assms by (rule display_bullets)
  have "?ls \<noteq> []" using assms(4) by auto
  moreover have "\<forall>x\<in>set ?ls. CHR 0x0A \<notin> set x"
    using points_of_props(6) [OF _ nl] by auto
  ultimately have lines: "str_split (CHR 0x0A) (display_key_actions ka) = ?ls"
    unfolding d by (rule str_split_join)
  show ?thesis
  proof
    fix line
    assume "line \<in> set (str_split (CHR 0x0A) (display_key_actions ka))"
    with lines obtain p where p: "p \<in> set (points_of ka)" and l: "line = ''- '' @ p"
      by auto
    from points_of_props [OF p] l
    show "CHR ''.'' \<notin> set line \<and> CHR '';'' \<notin> set line \<and>
           (\<exists>frag. line = ''- '' @ frag \<and> frag \<noteq> [] \<and>
                   \<not> isspace (hd frag) \<and> \<not> isspace (last frag))"
      by auto
  qed
qed

theorem bullet_lines_clean_witness:
  "''Rest; drink fluids.'' \<noteq> [] \<and> \<not> str_contains ''- '' ''Rest; drink fluids.'' \<and>
   \<not> str_contains [CHR 0x0A] ''Rest; drink fluids.'' \<and>
   1 < length (points_of ''Rest; drink fluids.'') \<and>
   str_split (CHR 0x0A) (display_key_actions ''Rest; drink fluids.'') =
     [''- Rest'', ''- drink fluids''] \<and>
   CHR ''.'' \<notin> set ''- drink fluids'' \<and> CHR '';'' \<notin> set ''- drink fluids'' \<and>
   (\<exists>frag. ''- drink fluids'' = ''- '' @ frag \<and> frag \<noteq> [] \<and>
           \<not> isspace (hd frag) \<and> \<not> isspace (last frag))"
proof -
  have h1: "''Rest; drink fluids.'' \<noteq> []" by simp
  have h2: "\<not> str_contains ''- '' ''Rest; drink fluids.''" by code_simp
  have h3: "\<not> str_contains [CHR 0x0A] ''Rest; drink fluids.''" by code_simp
  have h4: "1 < length (points_of ''Rest; drink fluids.'')" by code_simp
  have v: "str_split (CHR 0x0A) (display_key_actions ''Rest; drink fluids.'') =
     [''- Rest'', ''- drink fluids'']"
    by code_simp
  then have m: "''- drink fluids'' \<in> set (str_split (CHR 0x0A) (display_key_actions ''Rest; drink fluids.''))"
    by simp
  from bullet_lines_clean [OF h1 h2 h3 h4, THEN bspec, OF m] v h1 h2 h3 h4
  show ?thesis by blast
qed

text \<open>
  C9. When the key-actions text is non-empty, contains neither a dash followed by a space
  nor a newline, and at most one fragment survives the split, the displayed value is
  the text itself, trailing period or semicolon included, not the stripped fragment:
  "Rest." has the single fragment "Rest" and is displayed as "Rest.".
\<close>

theorem single_fragment_verbatim:
  "(ka \<noteq> [] \<and> \<not> str_contains ''- '' ka \<and>
    \<not> str_contains [CHR 0x0A] ka \<and> length (points_of ka) \<le> 1
    \<longrightarrow> display_key_actions ka = ka \<and>
        or_placeholder (display_key_actions ka) = ka)
   \<and> points_of ''Rest.'' = [''Rest'']
   \<and> key_insights_view ''Summary: cold. Key Actions: Rest.'' = ''Rest.''
   \<and> key_insights_view ''Key Actions: Rest;'' = ''Rest;''"
proof (intro conjI impI)
  assume a: "ka \<noteq> [] \<and> \<not> str_contains ''- '' ka \<and>
    \<not> str_contains [CHR 0x0A] ka \<and> length (points_of ka) \<le> 1"
  then show d: "display_key_actions ka = ka" by (simp add: display_single)
  from a show "or_placeholder (display_key_actions ka) = ka"
    unfolding d by (simp add: or_placeholder_def)
next
  show "points_of ''Rest.'' = [''Rest'']" by code_simp
  show "key_insights_view ''Summary: cold. Key Actions: Rest.'' = ''Rest.''" by code_simp
  show "key_insights_view ''Key Actions: Rest;'' = ''Rest;''" by code_simp
qed

theorem single_fragment_verbatim_witness:
  "''Rest.'' \<noteq> [] \<and> \<not> str_contains ''- '' ''Rest.'' \<and>
    \<not> str_contains [CHR 0x0A] ''Rest.'' \<and> length (points_of ''Rest.'') \<le> 1 \<and>
    display_key_actions ''Rest.'' = ''Rest.'' \<and> or_placeholder (display_key_actions ''Rest.'') = ''Rest.''"
proof -
  have h: "''Rest.'' \<noteq> [] \<and> \<not> str_contains ''- '' ''Rest.'' \<and>
    \<not> str_contains [CHR 0x0A] ''Rest.'' \<and> length (points_of ''Rest.'') \<le> 1" by code_simp
  from single_fragment_verbatim [of "''Rest.''"] h show ?thesis by blast
qed

section \<open>Claims about the Summary view\<close>

text \<open>
  C2. The Summary view is meant to be the text before the marker with a leading "Summary:"
  label removed, whitespace around the text being ignored when the label is matched. The
  code removes the first eight characters of the unstripped text: for a summary that
  begins with a newline, it removes the newline and "Summary" and leaves the colon, where
  the specification gives "Patient has a cold."; the example without leading whitespace
  is displayed as the specification says.
\<close>

theorem summary_view_label_after_leading_whitespace:
  "summary_view (CHR 0x0A # ''Summary: Patient has a cold. Key Actions: Rest.'') =
     '': Patient has a cold.''
   \<and> spec_summary_view (CHR 0x0A # ''Summary: Patient has a cold. Key Actions: Rest.'') =
     ''Patient has a cold.''
   \<and> summary_view ''Summary: Patient has a cold.Key Actions:Rest; drink fluids.'' =
     ''Patient has a cold.''"
  by code_simp

text \<open>
  C4. For a summary without the marker the key-actions view is the placeholder, and the
  Summary view is meant to be the input with its label removed. On the marker-free text
  " Summary: ok" the code displays ": ok", where the specification gives "ok".
\<close>

theorem summary_view_no_marker_leading_whitespace:
  "\<not> str_contains marker '' Summary: ok''
   \<and> summary_view '' Summary: ok'' = '': ok''
   \<and> spec_summary_view '' Summary: ok'' = ''ok''
   \<and> key_insights_view '' Summary: ok'' = ''No key actions found.''"
  by code_simp

section \<open>Claims about the transcription and summarization stages\<close>

text \<open>
  C6, as stated, fails: the loop also exits when a response has no status. The error body
  of the service carries none; on it the lookup of line 74 raises KeyError, which nothing
  catches, and the run ends at the first poll although no response is terminal.
\<close>

theorem poll_exits_without_terminal_status:
  "json_field (no_status_polls 0) ''status'' = Inl KeyError \<and>
   \<not> terminal (no_status_polls 0) \<and>
   poll no_status_polls 0 (begin_run initial_session) =
     Some \<lparr>session_state = initial_session, shown = [], raised = Some KeyError\<rparr>"
proof -
  have a: "json_field (no_status_polls 0) ''status'' = Inl KeyError"
    by (simp add: no_status_polls_def json_field_def)
  have b: "\<not> terminal (no_status_polls 0)" by (rule no_status_polls_never_terminal)
  from a have "poll no_status_polls 0 (begin_run initial_session) =
      Some (raise KeyError (begin_run initial_session))" by (rule poll_no_status)
  with a b show ?thesis by (simp add: raise_def begin_run_def)
qed

text \<open>
  C6, amended. For every sequence of poll responses: when the responses before the n-th
  carry non-terminal statuses and the n-th reports \<open>completed\<close> with a text, the loop
  exits with that text stored as the transcript, after one status message per earlier
  poll; when the n-th reports \<open>error\<close>, it exits with the failure message and the
  session as it was; when every response carries a non-terminal status, the loop never
  exits, there being no bound on the number of polls; when the n-th has no status, or is
  completed without a text, the loop exits by the exception of the failed lookup and
  stores nothing. A run that ends without an exception has met a terminal response, after
  non-terminal ones only; and on responses that all carry a status, and a text when
  completed, the loop exits exactly when some response is terminal.
\<close>

theorem poll_exit_conditions:
  "((\<forall>i<n. non_terminal (get i) (st i)) \<and>
      json_field (get n) ''status'' = Inr (JStr ''completed'') \<and>
      json_field (get n) ''text'' = Inr t
      \<longrightarrow> poll get 0 r =
            Some (r\<lparr>session_state := (session_state r)\<lparr>transcript := t\<rparr>,
                    shown := shown r @ waiting st 0 n @ [TranscriptionCompleted]\<rparr>))
   \<and> ((\<forall>i<n. non_terminal (get i) (st i)) \<and>
      json_field (get n) ''status'' = Inr (JStr ''error'')
      \<longrightarrow> poll get 0 r = Some (r\<lparr>shown := shown r @ waiting st 0 n @ [TranscriptionFailed]\<rparr>))
   \<and> ((\<forall>i. non_terminal (get i) (st i)) \<longrightarrow> poll get 0 r = None)
   \<and> ((\<forall>i<n. non_terminal (get i) (st i)) \<and>
      (json_field (get n) ''status'' = Inl e \<or>
       json_field (get n) ''status'' = Inr (JStr ''completed'') \<and>
       json_field (get n) ''text'' = Inl e)
      \<longrightarrow> poll get 0 r = Some (r\<lparr>shown := shown r @ waiting st 0 n, raised := Some e\<rparr>))
   \<and> (poll get 0 r = Some y \<and> raised y = None
      \<longrightarrow> (\<exists>m. terminal (get m) \<and> (\<forall>i<m. \<exists>s. non_terminal (get i) s)))
   \<and> ((\<forall>i. well_formed (get i))
      \<longrightarrow> ((\<exists>y. poll get 0 r = Some y) \<longleftrightarrow> (\<exists>i. terminal (get i))))"
proof (intro conjI impI)
  assume a: "(\<forall>i<n. non_terminal (get i) (st i)) \<and>
      json_field (get n) ''status'' = Inr (JStr ''completed'') \<and>
      json_field (get n) ''text'' = Inr t"
  then have "poll get 0 r = poll get n (r\<lparr>shown := shown r @ waiting st 0 n\<rparr>)"
    by (intro poll_skip) auto
  with a show "poll get 0 r =
            Some (r\<lparr>session_state := (session_state r)\<lparr>transcript := t\<rparr>,
                    shown := shown r @ waiting st 0 n @ [TranscriptionCompleted]\<rparr>)"
    by (simp add: poll_completed emit_def)
next
  assume a: "(\<forall>i<n. non_terminal (get i) (st i)) \<and>
      json_field (get n) ''status'' = Inr (JStr ''error'')"
  then have "poll get 0 r = poll get n (r\<lparr>shown := shown r @ waiting st 0 n\<rparr>)"
    by (intro poll_skip) auto
  with a show "poll get 0 r = Some (r\<lparr>shown := shown r @ waiting st 0 n @ [TranscriptionFailed]\<rparr>)"
    by (simp add: poll_error emit_def)
next
  assume "\<forall>i. non_terminal (get i) (st i)"
  then show "poll get 0 r = None" by (rule poll_never)
next
  assume a: "(\<forall>i<n. non_terminal (get i) (st i)) \<and>
      (json_field (get n) ''status'' = Inl e \<or>
       json_field (get n) ''status'' = Inr (JStr ''completed'') \<and>
       json_field (get n) ''text'' = Inl e)"
  then have sk: "poll get 0 r = poll get n (r\<lparr>shown := shown r @ waiting st 0 n\<rparr>)"
    by (intro poll_skip) auto
  from a have "poll get n (r\<lparr>shown := shown r @ waiting st 0 n\<rparr>) =
      Some (raise e (r\<lparr>shown := shown r @ waiting st 0 n\<rparr>))"
    by (auto simp: poll_no_status poll_completed_no_text)
  with sk show "poll get 0 r = Some (r\<lparr>shown := shown r @ waiting st 0 n, raised := Some e\<rparr>)"
    by (simp add: raise_def)
next
  assume "poll get 0 r = Some y \<and> raised y = None"
  then have "poll get 0 r = Some y" and "raised y = None" by simp_all
  from poll_normal_exit [OF this]
  show "\<exists>m. terminal (get m) \<and> (\<forall>i<m. \<exists>s. non_terminal (get i) s)" by auto
next
  assume wf: "\<forall>i. well_formed (get i)"
  show "(\<exists>y. poll get 0 r = Some y) \<longleftrightarrow> (\<exists>i. terminal (get i))"
  proof
    assume "\<exists>y. poll get 0 r = Some y"
    then obtain y where "poll get 0 r = Some y" by blast
    from poll_Some_terminal [OF this] obtain m where "\<forall>st. \<not> non_terminal (get m) st" by blast
    with wf well_formed_cases have "terminal (get m)" by blast
    then show "\<exists>i. terminal (get i)" by blast
  next
    assume "\<exists>i. terminal (get i)"
    then obtain i where "terminal (get i)" by blast
    with wf show "\<exists>y. poll get 0 r = Some y" by (rule poll_terminal_returns)
  qed
qed

theorem poll_exit_conditions_witness:
  "non_terminal (demo_polls (JStr ''completed'') 0) (demo_statuses 0) \<and>
   non_terminal (demo_polls (JStr ''completed'') 1) (demo_statuses 1) \<and>
   json_field (demo_polls (JStr ''completed'') 2) ''status'' = Inr (JStr ''completed'') \<and>
   json_field (demo_polls (JStr ''completed'') 2) ''text'' = Inr (JStr ''hello'') \<and>
   poll (demo_polls (JStr ''completed'')) 0 (begin_run initial_session) =
     Some \<lparr>session_state = initial_session\<lparr>transcript := JStr ''hello''\<rparr>,
           shown = [StatusWaiting (JStr ''queued''), StatusWaiting (JStr ''processing''),
                    TranscriptionCompleted],
           raised = None\<rparr> \<and>
   json_field (demo_polls (JStr ''error'') 2) ''status'' = Inr (JStr ''error'') \<and>
   poll (demo_polls (JStr ''error'')) 0 (begin_run initial_session) =
     Some \<lparr>session_state = initial_session,
           shown = [StatusWaiting (JStr ''queued''), StatusWaiting (JStr ''processing''),
                    TranscriptionFailed],
           raised = None\<rparr> \<and>
   (\<forall>i. non_terminal (ok_json [(''status'', JStr ''processing'')]) (JStr ''processing'')) \<and>
   poll (\<lambda>i. ok_json [(''status'', JStr ''processing'')]) 0 (begin_run initial_session) = None \<and>
   non_terminal (broken_polls 0) (demo_statuses 0) \<and>
   non_terminal (broken_polls 1) (demo_statuses 1) \<and>
   json_field (broken_polls 2) ''status'' = Inl KeyError \<and>
   poll broken_polls 0 (begin_run initial_session) =
     Some \<lparr>session_state = initial_session,
           shown = [StatusWaiting (JStr ''queued''), StatusWaiting (JStr ''processing'')],
           raised = Some KeyError\<rparr> \<and>
   (\<exists>m. terminal (demo_polls (JStr ''completed'') m) \<and>
        (\<forall>i<m. \<exists>s. non_terminal (demo_polls (JStr ''completed'') i) s)) \<and>
   (\<forall>i. well_formed (demo_polls (JStr ''completed'') i)) \<and>
   terminal (demo_polls (JStr ''completed'') 2) \<and>
   (\<exists>y. poll (demo_polls (JStr ''completed'')) 0 (begin_run initial_session) = Some y)"
proof -
  let ?c = "demo_polls (JStr ''completed'')" and ?e = "demo_polls (JStr ''error'')"
  let ?p = "\<lambda>i::nat. ok_json [(''status'', JStr ''processing'')]"
  let ?r = "begin_run initial_session"
  have w0: "non_terminal (?c 0) (demo_statuses 0)" and w1: "non_terminal (?c 1) (demo_statuses 1)"
    using demo_waiting [of "JStr ''completed''"] by simp_all
  have x0: "non_terminal (broken_polls 0) (demo_statuses 0)"
    and x1: "non_terminal (broken_polls 1) (demo_statuses 1)"
    using broken_waiting by simp_all
  have c2: "json_field (?c 2) ''status'' = Inr (JStr ''completed'')"
    and t2: "json_field (?c 2) ''text'' = Inr (JStr ''hello'')"
    and e2: "json_field (?e 2) ''status'' = Inr (JStr ''error'')"
    by (simp_all add: demo_polls_def json_field_def ok_json_def)
  have k2: "json_field (broken_polls 2) ''status'' = Inl KeyError"
    by (simp add: broken_polls_def no_status_polls_def json_field_def)
  have np: "\<forall>i. non_terminal (?p i) (JStr ''processing'')"
    by (simp add: non_terminal_def json_field_def ok_json_def)
  have wf: "\<forall>i. well_formed (?c i)"
    by (simp add: well_formed_def demo_polls_def json_field_def ok_json_def)
  have tm: "terminal (?c 2)" using c2 by (simp add: terminal_def)
  have wshown: "waiting demo_statuses 0 2 = [StatusWaiting (JStr ''queued''), StatusWaiting (JStr ''processing'')]"
    by (simp add: waiting_def demo_statuses_def upt_rec numeral_2_eq_2)
  note A = poll_exit_conditions [where n = 2 and get = ?c and st = demo_statuses and t = "JStr ''hello''" and r = ?r]
  note B = poll_exit_conditions [where n = 2 and get = ?e and st = demo_statuses and r = ?r]
  note C = poll_exit_conditions [where get = ?p and st = "\<lambda>i. JStr ''processing''" and r = ?r]
  note E = poll_exit_conditions [where n = 2 and get = broken_polls and st = demo_statuses and e = KeyError and r = ?r]
  from A demo_waiting [of "JStr ''completed''"] c2 t2
  have a: "poll ?c 0 ?r =
     Some (?r\<lparr>session_state := (session_state ?r)\<lparr>transcript := JStr ''hello''\<rparr>,
              shown := shown ?r @ waiting demo_statuses 0 2 @ [TranscriptionCompleted]\<rparr>)"
    by blast
  from B demo_waiting [of "JStr ''error''"] e2
  have b: "poll ?e 0 ?r = Some (?r\<lparr>shown := shown ?r @ waiting demo_statuses 0 2 @ [TranscriptionFailed]\<rparr>)"
    by blast
  from C np have c: "poll ?p 0 ?r = None" by blast
  from E broken_waiting k2
  have e: "poll broken_polls 0 ?r =
      Some (?r\<lparr>shown := shown ?r @ waiting demo_statuses 0 2, raised := Some KeyError\<rparr>)"
    by blast
  from A wf tm have d: "\<exists>y. poll ?c 0 ?r = Some y" by blast
  from a have a': "poll ?c 0 ?r = Some \<lparr>session_state = initial_session\<lparr>transcript := JStr ''hello''\<rparr>,
           shown = [StatusWaiting (JStr ''queued''), StatusWaiting (JStr ''processing''),
                    TranscriptionCompleted], raised = None\<rparr>"
    by (simp add: wshown begin_run_def)
  from b have b': "poll ?e 0 ?r = Some \<lparr>session_state = initial_session,
           shown = [StatusWaiting (JStr ''queued''), StatusWaiting (JStr ''processing''),
                    TranscriptionFailed], raised = None\<rparr>"
    by (simp add: wshown begin_run_def)
  from e have e': "poll broken_polls 0 ?r = Some \<lparr>session_state = initial_session,
           shown = [StatusWaiting (JStr ''queued''), StatusWaiting (JStr ''processing'')],
           raised = Some KeyError\<rparr>"
    by (simp add: wshown begin_run_def)
  from poll_exit_conditions [where get = ?c and r = ?r and y = "\<lparr>session_state = initial_session\<lparr>transcript := JStr ''hello''\<rparr>,
           shown = [StatusWaiting (JStr ''queued''), StatusWaiting (JStr ''processing''),
                    TranscriptionCompleted], raised = None\<rparr>"] a'
  have n: "\<exists>m. terminal (?c m) \<and> (\<forall>i<m. \<exists>s. non_terminal (?c i) s)" by simp
  from w0 w1 c2 t2 a' e2 b' np c x0 x1 k2 e' n wf tm d show ?thesis by blast
qed

text \<open>
  C7. A failed stage leaves the session state as it was: a failed upload, a failed job
  request, a transcription that the service reports as failed, a summarization answered with
  a status other than 200, and a summarization whose body lacks the nested text field. In
  each case the run shows the corresponding error and writes no session field; this also
  holds for the Summary page as a whole.
\<close>

theorem failed_stage_keeps_session_state:
  "(status_code upload_res \<noteq> 200 \<longrightarrow>
      start_transcription upload_res post_transcript get_transcript s =
        Some (emit UploadFailed (begin_run s)) \<and>
      session_state (emit UploadFailed (begin_run s)) = s)
   \<and> (status_code upload_res = 200 \<and> json_field upload_res ''upload_url'' = Inr u \<and>
       status_code (post_transcript u) \<noteq> 200 \<longrightarrow>
      start_transcription upload_res post_transcript get_transcript s =
        Some (emit RequestFailed (begin_run s)) \<and>
      session_state (emit RequestFailed (begin_run s)) = s)
   \<and> (status_code upload_res = 200 \<and> json_field upload_res ''upload_url'' = Inr u \<and>
       status_code (post_transcript u) = 200 \<and> json_field (post_transcript u) ''id'' = Inr tid \<and>
       (\<forall>i<n. non_terminal (get_transcript tid i) (st i)) \<and>
       json_field (get_transcript tid n) ''status'' = Inr (JStr ''error'') \<longrightarrow>
      start_transcription upload_res post_transcript get_transcript s =
        Some \<lparr>session_state = s, shown = waiting st 0 n @ [TranscriptionFailed], raised = None\<rparr>)
   \<and> (status_code res \<noteq> 200 \<longrightarrow>
      generate_summary res r = emit (GeminiError (res_text res)) r \<and>
      session_state (generate_summary res r) = session_state r)
   \<and> (gemini_text res = Inl e \<longrightarrow>
      session_state (generate_summary res r) = session_state r \<and>
      (status_code res = 200 \<longrightarrow> generate_summary res r = emit (ParsingFailed e) r))
   \<and> (status_code res \<noteq> 200 \<or> gemini_text res = Inl e \<longrightarrow>
      session_state (summary_page clicked res s) = s)"
proof (intro conjI impI)
  assume "status_code upload_res \<noteq> 200"
  then show "start_transcription upload_res post_transcript get_transcript s =
        Some (emit UploadFailed (begin_run s))"
    by (simp add: start_transcription_def)
next
  assume "status_code upload_res = 200 \<and> json_field upload_res ''upload_url'' = Inr u \<and>
       status_code (post_transcript u) \<noteq> 200"
  then show "start_transcription upload_res post_transcript get_transcript s =
        Some (emit RequestFailed (begin_run s))"
    by (simp add: start_transcription_def)
next
  assume a: "status_code upload_res = 200 \<and> json_field upload_res ''upload_url'' = Inr u \<and>
       status_code (post_transcript u) = 200 \<and> json_field (post_transcript u) ''id'' = Inr tid \<and>
       (\<forall>i<n. non_terminal (get_transcript tid i) (st i)) \<and>
       json_field (get_transcript tid n) ''status'' = Inr (JStr ''error'')"
  then have "start_transcription upload_res post_transcript get_transcript s =
      poll (get_transcript tid) 0 (begin_run s)"
    by (simp add: start_transcription_def)
  also have "\<dots> = poll (get_transcript tid) n ((begin_run s)\<lparr>shown := shown (begin_run s) @ waiting st 0 n\<rparr>)"
    using a by (intro poll_skip) auto
  also have "\<dots> = Some (emit TranscriptionFailed ((begin_run s)\<lparr>shown := shown (begin_run s) @ waiting st 0 n\<rparr>))"
    using a by (intro poll_error) simp
  finally show "start_transcription upload_res post_transcript get_transcript s =
        Some \<lparr>session_state = s, shown = waiting st 0 n @ [TranscriptionFailed], raised = None\<rparr>"
    by (simp add: emit_def begin_run_def)
next
  assume "status_code res \<noteq> 200"
  then show "generate_summary res r = emit (GeminiError (res_text res)) r"
    by (simp add: generate_summary_def)
  then show "session_state (generate_summary res r) = session_state r" by simp
next
  assume "gemini_text res = Inl e"
  then show "session_state (generate_summary res r) = session_state r"
    by (simp add: generate_summary_def)
next
  assume "gemini_text res = Inl e" and "status_code res = 200"
  then show "generate_summary res r = emit (ParsingFailed e) r"
    by (simp add: generate_summary_def)
next
  assume "status_code res \<noteq> 200 \<or> gemini_text res = Inl e"
  then have "session_state (generate_summary res (begin_run s)) = s"
    by (auto simp: generate_summary_def)
  then show "session_state (summary_page clicked res s) = s"
    by (simp add: summary_page_def)
qed simp_all

theorem failed_stage_keeps_session_state_witness:
  "status_code (failing_response 401) \<noteq> 200 \<and>
   start_transcription (failing_response 401) (\<lambda>u. ok_json [(''id'', JStr ''7'')])
      (\<lambda>tid. demo_polls (JStr ''error'')) old_session =
     Some \<lparr>session_state = old_session, shown = [UploadFailed], raised = None\<rparr> \<and>
   json_field (ok_json [(''upload_url'', JStr ''u'')]) ''upload_url'' = Inr (JStr ''u'') \<and>
   start_transcription (ok_json [(''upload_url'', JStr ''u'')]) (\<lambda>u. failing_response 500)
      (\<lambda>tid. demo_polls (JStr ''error'')) old_session =
     Some \<lparr>session_state = old_session, shown = [RequestFailed], raised = None\<rparr> \<and>
   json_field (demo_polls (JStr ''error'') 2) ''status'' = Inr (JStr ''error'') \<and>
   start_transcription (ok_json [(''upload_url'', JStr ''u'')]) (\<lambda>u. ok_json [(''id'', JStr ''7'')])
      (\<lambda>tid. demo_polls (JStr ''error'')) old_session =
     Some \<lparr>session_state = old_session,
           shown = [StatusWaiting (JStr ''queued''), StatusWaiting (JStr ''processing''),
                    TranscriptionFailed],
           raised = None\<rparr> \<and>
   generate_summary (failing_response 500) (begin_run old_session) =
     \<lparr>session_state = old_session, shown = [GeminiError ''denied''], raised = None\<rparr> \<and>
   gemini_text (ok_json [(''candidates'', JArr [])]) = Inl IndexError \<and>
   generate_summary (ok_json [(''candidates'', JArr [])]) (begin_run old_session) =
     \<lparr>session_state = old_session, shown = [ParsingFailed IndexError], raised = None\<rparr> \<and>
   session_state (summary_page True (ok_json [(''candidates'', JArr [])]) old_session) =
     old_session"
proof -
  let ?up = "ok_json [(''upload_url'', JStr ''u'')]"
  let ?post = "\<lambda>u::json. ok_json [(''id'', JStr ''7'')]"
  let ?get = "\<lambda>tid::json. demo_polls (JStr ''error'')"
  let ?bad = "ok_json [(''candidates'', JArr [])]"
  have h1: "status_code (failing_response 401) \<noteq> 200" by (simp add: failing_response_def)
  have h2: "status_code ?up = 200" and h3: "json_field ?up ''upload_url'' = Inr (JStr ''u'')"
    by (simp_all add: ok_json_def json_field_def)
  have h4: "status_code (failing_response 500) \<noteq> 200" by (simp add: failing_response_def)
  have h5: "status_code (?post (JStr ''u'')) = 200"
    and h6: "json_field (?post (JStr ''u'')) ''id'' = Inr (JStr ''7'')"
    by (simp_all add: ok_json_def json_field_def)
  have h7: "json_field (demo_polls (JStr ''error'') 2) ''status'' = Inr (JStr ''error'')"
    by (simp add: demo_polls_def json_field_def ok_json_def)
  have h8: "gemini_text ?bad = Inl IndexError"
    by (simp add: gemini_text_def and_then_def json_field_def ok_json_def)
  have h9: "status_code ?bad = 200" by (simp add: ok_json_def)
  have wshown: "waiting demo_statuses 0 2 = [StatusWaiting (JStr ''queued''), StatusWaiting (JStr ''processing'')]"
    by (simp add: waiting_def demo_statuses_def upt_rec numeral_2_eq_2)
  from failed_stage_keeps_session_state [where upload_res = "failing_response 401" and post_transcript = ?post
      and get_transcript = ?get and s = old_session] h1
  have a: "start_transcription (failing_response 401) ?post ?get old_session =
      Some (emit UploadFailed (begin_run old_session))" by blast
  from failed_stage_keeps_session_state [where upload_res = ?up and u = "JStr ''u''" and post_transcript = "\<lambda>u. failing_response 500"
      and get_transcript = ?get and s = old_session] h2 h3 h4
  have b: "start_transcription ?up (\<lambda>u. failing_response 500) ?get old_session =
      Some (emit RequestFailed (begin_run old_session))" by blast
  from failed_stage_keeps_session_state [where upload_res = ?up and u = "JStr ''u''" and post_transcript = ?post
      and tid = "JStr ''7''" and n = 2 and get_transcript = ?get and st = demo_statuses
      and s = old_session]
    h2 h3 h5 h6 h7 demo_waiting [of "JStr ''error''"]
  have c: "start_transcription ?up ?post ?get old_session =
      Some \<lparr>session_state = old_session, shown = waiting demo_statuses 0 2 @ [TranscriptionFailed],
            raised = None\<rparr>" by blast
  from failed_stage_keeps_session_state [where res = "failing_response 500" and r = "begin_run old_session"] h4
  have d: "generate_summary (failing_response 500) (begin_run old_session) =
      emit (GeminiError (res_text (failing_response 500))) (begin_run old_session)" by blast
  from failed_stage_keeps_session_state [where res = ?bad and r = "begin_run old_session" and e = IndexError] h8 h9
  have e: "generate_summary ?bad (begin_run old_session) =
      emit (ParsingFailed IndexError) (begin_run old_session)" by blast
  from a have a': "start_transcription (failing_response 401) ?post ?get old_session =
     Some \<lparr>session_state = old_session, shown = [UploadFailed], raised = None\<rparr>"
    by (simp add: emit_def begin_run_def)
  from b have b': "start_transcription ?up (\<lambda>u. failing_response 500) ?get old_session =
     Some \<lparr>session_state = old_session, shown = [RequestFailed], raised = None\<rparr>"
    by (simp add: emit_def begin_run_def)
  from c have c': "start_transcription ?up ?post ?get old_session =
     Some \<lparr>session_state = old_session,
           shown = [StatusWaiting (JStr ''queued''), StatusWaiting (JStr ''processing''),
                    TranscriptionFailed], raised = None\<rparr>"
    by (simp add: wshown)
  from d have d': "generate_summary (failing_response 500) (begin_run old_session) =
     \<lparr>session_state = old_session, shown = [GeminiError ''denied''], raised = None\<rparr>"
    by (simp add: emit_def begin_run_def failing_response_def)
  from e have e': "generate_summary ?bad (begin_run old_session) =
     \<lparr>session_state = old_session, shown = [ParsingFailed IndexError], raised = None\<rparr>"
    by (simp add: emit_def begin_run_def)
  from failed_stage_keeps_session_state [where res = ?bad and e = IndexError and clicked = True and s = old_session] h8
  have f: "session_state (summary_page True ?bad old_session) = old_session" by blast
  from h1 a' h3 b' h7 c' d' h8 e' f show ?thesis by blast
qed

section \<open>Claims about the pages\<close>

text \<open>
  C10. On the Summary page and on the Key Insights page the download button serves exactly
  the text shown in the text area. For a stored non-empty summary text the Summary page
  shows and serves the display text (cut at the marker, label removed), which differs from
  the stored text in the example, and the Key Insights page shows and serves the formatted
  key actions, or the placeholder "No key actions found." when there are none.
\<close>

theorem download_serves_displayed_text:
  "text_area_values (shown (summary_page clicked res s)) =
     download_data (shown (summary_page clicked res s))
   \<and> text_area_values (shown (key_insights_page s)) = download_data (shown (key_insights_page s))
   \<and> (truthy (transcript s) \<and> summary (session_state (summary_page clicked res s)) = JStr t \<and>
       t \<noteq> [] \<longrightarrow>
      text_area_values (shown (summary_page clicked res s)) = [summary_view t] \<and>
      download_data (shown (summary_page clicked res s)) = [summary_view t])
   \<and> (summary s = JStr t \<and> t \<noteq> [] \<longrightarrow>
      text_area_values (shown (key_insights_page s)) = [key_insights_view t] \<and>
      download_data (shown (key_insights_page s)) = [key_insights_view t])
   \<and> summary_view ''Summary: Patient has a cold.Key Actions:Rest; drink fluids.'' =
       ''Patient has a cold.''
   \<and> key_insights_view ''Summary: Patient has a cold.Key Actions:Rest; drink fluids.'' =
       ''- Rest'' @ [CHR 0x0A] @ ''- drink fluids''
   \<and> key_insights_view ''Summary: Patient has a cold.'' = ''No key actions found.''"
proof (intro conjI impI)
  let ?r = "if clicked then generate_summary res (begin_run s) else begin_run s"
  have base: "text_area_values (shown ?r) = [] \<and> download_data (shown ?r) = []"
    using shown_generate_summary [of res "begin_run s"] by simp
  then show "text_area_values (shown (summary_page clicked res s)) =
     download_data (shown (summary_page clicked res s))"
    by (simp add: summary_page_def show_summary_same del: if_split)
  show "text_area_values (shown (key_insights_page s)) = download_data (shown (key_insights_page s))"
    by (simp add: key_insights_page_def Let_def split: sum.splits)
  {
    assume a: "truthy (transcript s) \<and> summary (session_state (summary_page clicked res s)) = JStr t \<and> t \<noteq> []"
    then have p: "summary_page clicked res s = show_summary ?r" by (simp add: summary_page_def)
    have ss: "session_state (show_summary ?r) = session_state ?r"
      by (cases "summary (session_state ?r)") (simp_all add: show_summary_def Let_def)
    with a p have "summary (session_state ?r) = JStr t" by simp
    with a have "show_summary ?r =
      emit (DownloadButton (summary_view t) ''summary.txt'') (emit (TextArea [] (summary_view t)) ?r)"
      by (intro show_summary_str) simp_all
    with p base show "text_area_values (shown (summary_page clicked res s)) = [summary_view t]"
      and "download_data (shown (summary_page clicked res s)) = [summary_view t]"
      by simp_all
  }
  {
    assume "summary s = JStr t \<and> t \<noteq> []"
    then show "text_area_values (shown (key_insights_page s)) = [key_insights_view t]"
      and "download_data (shown (key_insights_page s)) = [key_insights_view t]"
      by (simp_all add: key_insights_page_def key_insights_view_def Let_def)
  }
  show "summary_view ''Summary: Patient has a cold.Key Actions:Rest; drink fluids.'' =
       ''Patient has a cold.''" by code_simp
  show "key_insights_view ''Summary: Patient has a cold.Key Actions:Rest; drink fluids.'' =
       ''- Rest'' @ [CHR 0x0A] @ ''- drink fluids''" by code_simp
  show "key_insights_view ''Summary: Patient has a cold.'' = ''No key actions found.''" by code_simp
qed

theorem download_serves_displayed_text_witness:
  "truthy (transcript demo_session) \<and>
   summary (session_state (summary_page False (failing_response 500) demo_session)) =
     JStr ''Summary: Patient has a cold.Key Actions:Rest; drink fluids.'' \<and>
   ''Summary: Patient has a cold.Key Actions:Rest; drink fluids.'' \<noteq> [] \<and>
   text_area_values (shown (summary_page False (failing_response 500) demo_session)) =
     [''Patient has a cold.''] \<and>
   download_data (shown (summary_page False (failing_response 500) demo_session)) =
     [''Patient has a cold.''] \<and>
   summary demo_session = JStr ''Summary: Patient has a cold.Key Actions:Rest; drink fluids.'' \<and>
   text_area_values (shown (key_insights_page demo_session)) =
     [''- Rest'' @ [CHR 0x0A] @ ''- drink fluids''] \<and>
   download_data (shown (key_insights_page demo_session)) =
     [''- Rest'' @ [CHR 0x0A] @ ''- drink fluids'']"
proof -
  let ?t = "''Summary: Patient has a cold.Key Actions:Rest; drink fluids.''"
  let ?p = "summary_page False (failing_response 500) demo_session"
  have h1: "truthy (transcript demo_session)" by (simp add: demo_session_def)
  have h2: "summary (session_state ?p) = JStr ?t"
    by (simp add: summary_page_def show_summary_def demo_session_def begin_run_def emit_def)
  have h3: "?t \<noteq> []" by simp
  have h4: "summary demo_session = JStr ?t" by (simp add: demo_session_def)
  note T = download_serves_displayed_text [where clicked = False and res = "failing_response 500" and s = demo_session
      and t = ?t]
  from T h1 h2 h3 have a: "text_area_values (shown ?p) = [summary_view ?t]"
    and b: "download_data (shown ?p) = [summary_view ?t]" by blast+
  from T h4 h3 have c: "text_area_values (shown (key_insights_page demo_session)) = [key_insights_view ?t]"
    and d: "download_data (shown (key_insights_page demo_session)) = [key_insights_view ?t]"
    by blast+
  from T have v1: "summary_view ?t = ''Patient has a cold.''"
    and v2: "key_insights_view ?t = ''- Rest'' @ [CHR 0x0A] @ ''- drink fluids''" by blast+
  from h1 h2 h3 h4 a b c d show ?thesis unfolding v1 v2 by blast
qed

end
